theory Spec2Isabelle
  imports Complex_Main "HOL-Library.Word"
begin

section \<open>Conventions of the embedding\<close>

text \<open>
  The repository is a Node.js server (\<^verbatim>\<open>server.js\<close>) that hands every uploaded photo to a
  worker thread (\<^verbatim>\<open>worker.js\<close>). The theory embeds the functions of both files.

  \<^item> JavaScript numbers are modelled exactly: integer-valued quantities (pixel sizes, counters)
    as \<open>int\<close> or \<open>nat\<close>, fractional ones as \<open>real\<close>. The rounding error of IEEE doubles, \<open>NaN\<close>
    and \<open>undefined\<close> are not represented.
  \<^item> \<^verbatim>\<open>Math.round(x)\<close> rounds half up: it is \<open>\<lfloor>x + 1/2\<rfloor>\<close>.
  \<^item> \<^verbatim>\<open>x || d\<close> on a number yields \<open>d\<close> when \<open>x\<close> is \<open>0\<close> (a missing metadata field is
    represented by \<open>0\<close> as well, since both are falsy).
  \<^item> The calls into the image library \<^verbatim>\<open>sharp\<close>, into the file system and into child processes
    are parameters of the model (records of functions and outcomes); the theorems hold for
    every value of these parameters unless a hypothesis says otherwise. A call into \<^verbatim>\<open>sharp\<close>
    inside the worker is taken to return; that it throws is represented only for the logo
    (where the code catches it) and, for a whole worker, by the outcome of \<^verbatim>\<open>runWorker\<close>.
  \<^item> Strings are lists of 8-bit characters; white space and letter case are those of ASCII.
\<close>

definition js_round :: "real \<Rightarrow> int" where
  "js_round x = \<lfloor>x + 1 / 2\<rfloor>"

definition js_or :: "'a::zero \<Rightarrow> 'a \<Rightarrow> 'a" where
  "js_or x d = (if x = 0 then d else x)"

text \<open>\<^verbatim>\<open>function clamp(v, min, max) { return Math.max(min, Math.min(max, v)); }\<close>\<close>

definition clamp :: "'a::linorder \<Rightarrow> 'a \<Rightarrow> 'a \<Rightarrow> 'a" where
  "clamp v mn mx = max mn (min mx v)"

section \<open>worker.js: layout metrics of the watermark overlay\<close>

text \<open>
  The first lines of \<^verbatim>\<open>buildWatermarkOverlay\<close> compute the local constants \<^verbatim>\<open>eventFont\<close>,
  \<^verbatim>\<open>padding\<close>, \<^verbatim>\<open>lineGap\<close>, \<^verbatim>\<open>marginPx\<close> and \<^verbatim>\<open>maxTextBlockWidth\<close>; the wrap width is the
  argument \<^verbatim>\<open>maxLineWidth: maxTextBlockWidth - 2 * padding\<close> of the call of
  \<^verbatim>\<open>wrapTextToWidth\<close>.
\<close>

definition eventFont :: "int \<Rightarrow> int \<Rightarrow> int" where
  "eventFont baseWidth baseHeight =
     (let shortestSide = min baseWidth baseHeight
      in clamp (js_round (real_of_int shortestSide * 0.028)) 18 96)"

definition padding :: "int \<Rightarrow> int" where
  "padding font = max 2 (js_round (real_of_int font * 0.35))"

definition lineGap :: "int \<Rightarrow> int" where
  "lineGap font = max 2 (js_round (real_of_int font * 0.30))"

definition marginPx_of :: "real \<Rightarrow> int \<Rightarrow> int" where
  "marginPx_of marginEm font = max 0 (js_round (js_or marginEm 0 * real_of_int font))"

definition maxTextBlockWidth :: "int \<Rightarrow> real \<Rightarrow> int \<Rightarrow> int" where
  "maxTextBlockWidth baseWidth textMaxWidthPct mPx =
     max 120 (js_round (real_of_int baseWidth * clamp (js_or textMaxWidthPct 0.9) 0.2 0.98) - mPx)"


subsection \<open>The formulas of the specification, for comparison\<close>







section \<open>worker.js: placing the overlay on the photo\<close>

text \<open>
  \<^verbatim>\<open>const left = Math.max(0, baseWidth - wmW - marginPx);\<close>
  \<^verbatim>\<open>const top  = Math.max(0, baseHeight - wmH - marginPx);\<close>
\<close>

definition overlayLeft :: "int \<Rightarrow> int \<Rightarrow> int \<Rightarrow> int" where
  "overlayLeft baseWidth wmW mPx = max 0 (baseWidth - wmW - mPx)"

definition overlayTop :: "int \<Rightarrow> int \<Rightarrow> int \<Rightarrow> int" where
  "overlayTop baseHeight wmH mPx = max 0 (baseHeight - wmH - mPx)"

section \<open>worker.js: greedy word wrap\<close>

text \<open>
  \<^verbatim>\<open>\s\<close> of the regular expression in \<^verbatim>\<open>fullText.split(/\s+/)\<close>, on the ASCII range: space,
  tab, line feed, vertical tab, form feed and carriage return.
\<close>

definition is_space :: "char \<Rightarrow> bool" where
  "is_space c = (c = CHR '' '' \<or> c = CHR 0x09 \<or> c = CHR 0x0A \<or> c = CHR 0x0B
                 \<or> c = CHR 0x0C \<or> c = CHR 0x0D)"

text \<open>\<^verbatim>\<open>fullText.split(/\s+/).filter(Boolean)\<close>: the maximal runs of non-space characters.\<close>

function js_words :: "string \<Rightarrow> string list" where
  "js_words [] = []"
| "js_words (c # cs) =
     (if is_space c then js_words cs
      else (c # takeWhile (\<lambda>x. \<not> is_space x) cs)
             # js_words (dropWhile (\<lambda>x. \<not> is_space x) cs))"
  by pat_completeness auto
termination
  by (relation "measure length") (auto simp: le_imp_less_Suc length_dropWhile_le)

text \<open>\<^verbatim>\<open>String.prototype.trim\<close>.\<close>

definition js_trim :: "string \<Rightarrow> string" where
  "js_trim s = rev (dropWhile is_space (rev (dropWhile is_space s)))"

text \<open>
  A rendered line is the object \<^verbatim>\<open>{ buffer, width, height }\<close> returned by
  \<^verbatim>\<open>renderTrimmedLine\<close>. The buffer is the trimmed PNG of the SVG built by
  \<^verbatim>\<open>makeTextLineSVG({ text, font: fontSize })\<close>; it is represented by the two values it is
  rendered from, the text and the font size in pixels (\<open>srcText\<close>, \<open>srcFont\<close>).
  The metadata that \<^verbatim>\<open>sharp\<close> reports for the trimmed image is given by a function of the
  text and the font size, with \<open>0\<close> for a missing field.
\<close>

record textLine =
  srcText :: string
  srcFont :: int
  width :: int
  height :: int

type_synonym renderer = "string \<Rightarrow> int \<Rightarrow> int \<times> int"

definition renderTrimmedLine :: "renderer \<Rightarrow> string \<Rightarrow> int \<Rightarrow> textLine" where
  "renderTrimmedLine m txt fontSize =
     (case m txt fontSize of (w, h) \<Rightarrow>
        \<lparr>srcText = txt, srcFont = fontSize, width = js_or w 1,
         height = js_or h (js_round (real_of_int fontSize * 1.6))\<rparr>)"

text \<open>\<^verbatim>\<open>const tryLine = current ? `${current} ${words[i]}` : words[i];\<close>\<close>

definition tryLine :: "string \<Rightarrow> string \<Rightarrow> string" where
  "tryLine current w = (if current \<noteq> [] then current @ '' '' @ w else w)"

text \<open>The \<^verbatim>\<open>for\<close> loop of \<^verbatim>\<open>wrapTextToWidth\<close>, with its variables \<^verbatim>\<open>current\<close> and \<^verbatim>\<open>lines\<close>.\<close>

fun wrapLoop :: "renderer \<Rightarrow> int \<Rightarrow> int \<Rightarrow> string list \<Rightarrow> string \<Rightarrow> textLine list
                 \<Rightarrow> string \<times> textLine list" where
  "wrapLoop m fontSize mx [] current lines = (current, lines)"
| "wrapLoop m fontSize mx (w # ws) current lines =
     (let measured = renderTrimmedLine m (tryLine current w) fontSize
      in if width measured \<le> mx then wrapLoop m fontSize mx ws (tryLine current w) lines
         else if current \<noteq> []
           then wrapLoop m fontSize mx ws w (lines @ [renderTrimmedLine m current fontSize])
           else wrapLoop m fontSize mx ws [] (lines @ [measured]))"

text \<open>
  \<^verbatim>\<open>wrapTextToWidth\<close> returns \<^verbatim>\<open>{ lines, totalWidth, totalHeight }\<close>; its only caller reads
  \<^verbatim>\<open>lines\<close>, which is what the model returns.
\<close>

definition wrapTextToWidth :: "renderer \<Rightarrow> string \<Rightarrow> int \<Rightarrow> int \<Rightarrow> textLine list" where
  "wrapTextToWidth m fullText fontSize mx =
     (let words = js_words fullText
      in if words = [] then [renderTrimmedLine m '' '' fontSize]
         else (case wrapLoop m fontSize mx words [] [] of (current, lines) \<Rightarrow>
                 if current \<noteq> [] then lines @ [renderTrimmedLine m current fontSize]
                 else lines))"

section \<open>worker.js: building the overlay\<close>

text \<open>
  \<^verbatim>\<open>const combinedText = `${(eventText || '').trim()} ${(dateText || '').trim()}`.trim();\<close>
\<close>

definition combinedText :: "string \<Rightarrow> string \<Rightarrow> string" where
  "combinedText eventText dateText = js_trim (js_trim eventText @ '' '' @ js_trim dateText)"

text \<open>
  What happens to the logo: the path is missing or names no file; reading or resizing it
  throws (caught, logged); its metadata has neither width nor height; or it is resized, with
  the metadata of the resized image (\<open>0\<close> for a missing field).
\<close>

datatype logoResult = LogoMissing | LogoThrows | LogoNoSize | LogoResized int int

text \<open>The variables \<^verbatim>\<open>logoBuffer\<close> (is it set?), \<^verbatim>\<open>logoWidth\<close> and \<^verbatim>\<open>logoHeight\<close>.\<close>

fun logoVars :: "logoResult \<Rightarrow> bool \<times> int \<times> int" where
  "logoVars (LogoResized w h) = (True, js_or w 0, js_or h 0)"
| "logoVars _ = (False, 0, 0)"

text \<open>An RGBA pixel with 8-bit samples, an image as the list of its pixels.\<close>

record pixel =
  red :: "8 word"
  green :: "8 word"
  blue :: "8 word"
  alpha :: "8 word"

type_synonym image = "pixel list"

datatype layerInput = LogoBuffer | LineBuffer string int

record layer =
  input :: layerInput
  left :: int
  top :: int

text \<open>
  The calls into \<^verbatim>\<open>sharp\<close>:
  \<^item> \<open>renderMeta\<close>: the metadata of a rendered and trimmed text line;
  \<^item> \<open>logo\<close>: the outcome of loading the logo and resizing it to the given height;
  \<^item> \<open>composite\<close>: the pixels of a transparent canvas of the given width and height with the
    layers composited onto it;
  \<^item> \<open>toSample\<close>: the cast by which \<^verbatim>\<open>linear\<close> writes a computed value back as an 8-bit sample;
  \<^item> \<open>imageMeta\<close>: width and height of the decoded input image.
\<close>

record sharpEnv =
  renderMeta :: renderer
  logo :: "int \<Rightarrow> logoResult"
  composite :: "int \<Rightarrow> int \<Rightarrow> layer list \<Rightarrow> image"
  toSample :: "real \<Rightarrow> 8 word"
  imageMeta :: "string \<Rightarrow> int \<times> int"

text \<open>
  \<^verbatim>\<open>sharp.linear(a, b)\<close> applies \<open>a * input + b\<close> to every sample, with one multiplier and one
  offset per channel, and writes the result back in the sample format of the image.
\<close>

definition linear :: "(real \<Rightarrow> 8 word) \<Rightarrow> real \<times> real \<times> real \<times> real
                        \<Rightarrow> real \<times> real \<times> real \<times> real \<Rightarrow> pixel \<Rightarrow> pixel" where
  "linear q a b p =
     (case a of (a1, a2, a3, a4) \<Rightarrow> case b of (b1, b2, b3, b4) \<Rightarrow>
        \<lparr>red = q (a1 * real (unat (red p)) + b1),
         green = q (a2 * real (unat (green p)) + b2),
         blue = q (a3 * real (unat (blue p)) + b3),
         alpha = q (a4 * real (unat (alpha p)) + b4)\<rparr>)"

text \<open>
  \<^verbatim>\<open>const alpha = Math.max(0, Math.min(1, overlayOpacity));\<close>
  \<^verbatim>\<open>sharp(watermarkBuffer).ensureAlpha().linear([1, 1, 1, alpha], [0, 0, 0, 0])\<close>.
  The canvas is created with four channels, so \<^verbatim>\<open>ensureAlpha\<close> changes nothing.
\<close>

definition applyOpacity :: "(real \<Rightarrow> 8 word) \<Rightarrow> real \<Rightarrow> image \<Rightarrow> image" where
  "applyOpacity q overlayOpacity watermarkBuffer =
     (let a = max 0 (min 1 overlayOpacity)
      in map (linear q (1, 1, 1, a) (0, 0, 0, 0)) watermarkBuffer)"

text \<open>The loop that stacks the text lines, with its variable \<^verbatim>\<open>cursorY\<close>.\<close>

fun lineLayers :: "int \<Rightarrow> int \<Rightarrow> int \<Rightarrow> int \<Rightarrow> textLine list \<Rightarrow> layer list" where
  "lineLayers overlayWidth pad gap cursorY [] = []"
| "lineLayers overlayWidth pad gap cursorY (l # ls) =
     \<lparr>input = LineBuffer (srcText l) (srcFont l),
      left = max 0 (overlayWidth - pad - width l), top = cursorY\<rparr>
     # lineLayers overlayWidth pad gap (cursorY + height l + gap) ls"

record overlay =
  buffer :: image
  width :: int
  height :: int
  fontSize :: int
  marginPx :: int

text \<open>The overlay before the opacity step: the constant \<^verbatim>\<open>watermarkBuffer\<close>, with its size.\<close>

definition watermarkCanvas :: "sharpEnv \<Rightarrow> int \<Rightarrow> int \<Rightarrow> string \<Rightarrow> string \<Rightarrow> real \<Rightarrow> real
                                \<Rightarrow> image \<times> int \<times> int" where
  "watermarkCanvas env baseWidth baseHeight dateText eventText marginEm textMaxWidthPct =
     (let font = eventFont baseWidth baseHeight;
          pad = padding font;
          gap = lineGap font;
          mPx = marginPx_of marginEm font;
          maxW = maxTextBlockWidth baseWidth textMaxWidthPct mPx;
          combined = combinedText eventText dateText
      in case logoVars (logo env (js_round (real_of_int font * 2.2))) of
           (hasLogo, logoWidth, logoHeight) \<Rightarrow>
      let textLines = wrapTextToWidth (renderMeta env)
                        (if combined \<noteq> [] then combined else '' '') font (maxW - 2 * pad);
          textBlockWidth = fold max (map textLine.width textLines) 1;
          textBlockHeight = sum_list (map textLine.height textLines)
             + (if 1 < length textLines then (int (length textLines) - 1) * gap else 0);
          contentWidth = max logoWidth textBlockWidth;
          overlayWidth = js_round (real_of_int (contentWidth + 2 * pad));
          overlayHeight = js_round (real_of_int
             (pad + (if hasLogo then logoHeight + gap else 0) + textBlockHeight + pad));
          composites =
             (if hasLogo
              then [\<lparr>input = LogoBuffer, left = max 0 (overlayWidth - pad - logoWidth), top = pad\<rparr>]
              else [])
             @ lineLayers overlayWidth pad gap
                 (js_round (real_of_int (pad + (if hasLogo then logoHeight + gap else 0))))
                 textLines
      in (composite env overlayWidth overlayHeight composites, overlayWidth, overlayHeight))"

text \<open>
  \<^verbatim>\<open>buildWatermarkOverlay\<close>. The result type is an option so that a \<^verbatim>\<open>null\<close> result could be
  told from an overlay object; the function has one \<^verbatim>\<open>return\<close>, of an object.
\<close>

definition buildWatermarkOverlay :: "sharpEnv \<Rightarrow> int \<Rightarrow> int \<Rightarrow> string \<Rightarrow> string \<Rightarrow> real \<Rightarrow> real
                                      \<Rightarrow> real \<Rightarrow> overlay option" where
  "buildWatermarkOverlay env baseWidth baseHeight dateText eventText marginEm textMaxWidthPct
       overlayOpacity =
     (case watermarkCanvas env baseWidth baseHeight dateText eventText marginEm textMaxWidthPct of
        (watermarkBuffer, overlayWidth, overlayHeight) \<Rightarrow>
          Some \<lparr>buffer = applyOpacity (toSample env) overlayOpacity watermarkBuffer,
                width = overlayWidth, height = overlayHeight,
                fontSize = eventFont baseWidth baseHeight,
                marginPx = marginPx_of marginEm (eventFont baseWidth baseHeight)\<rparr>)"

section \<open>worker.js: the worker's main function\<close>

text \<open>
  \<^verbatim>\<open>workerData\<close>; the three layout parameters have defaults (\<open>1\<close>, \<open>0.9\<close>, \<open>0.75\<close>) that apply
  when the field is absent.
\<close>

record workerData =
  inputPath :: string
  outputPath :: string
  mode :: string
  dateText :: string
  eventText :: string
  logoPath :: string
  marginEm :: "real option"
  textMaxWidthPct :: "real option"
  overlayOpacity :: "real option"

text \<open>
  What one run of the worker does, up to the encoding of the output: the path it decodes
  (\<^verbatim>\<open>sharp(inputPath, ...)\<close>), whether the colour adjustment is applied, and the overlay it
  composites with its position (\<open>None\<close> when nothing is composited).
\<close>

record workerRun =
  decodedPath :: string
  colorAdjusted :: bool
  composited :: "(image \<times> int \<times> int) option"

definition workerMain :: "sharpEnv \<Rightarrow> workerData \<Rightarrow> workerRun" where
  "workerMain env wd =
     (let needEdit = (mode wd = ''edit-watermark'' \<or> mode wd = ''edit-only'');
          needWatermark = (mode wd = ''edit-watermark'' \<or> mode wd = ''watermark-only'')
      in case imageMeta env (inputPath wd) of (mw, mh) \<Rightarrow>
      let baseWidth = js_or mw 2000;
          baseHeight = js_or mh 1333
      in \<lparr>decodedPath = inputPath wd,
          colorAdjusted = needEdit,
          composited =
            (if needWatermark
             then (case buildWatermarkOverlay env baseWidth baseHeight (dateText wd) (eventText wd)
                          (case marginEm wd of None \<Rightarrow> 1 | Some x \<Rightarrow> x)
                          (case textMaxWidthPct wd of None \<Rightarrow> 0.9 | Some x \<Rightarrow> x)
                          (case overlayOpacity wd of None \<Rightarrow> 0.75 | Some x \<Rightarrow> x) of
                     None \<Rightarrow> None
                   | Some ov \<Rightarrow>
                       Some (buffer ov,
                             overlayLeft baseWidth (overlay.width ov) (marginPx ov),
                             overlayTop baseHeight (overlay.height ov) (marginPx ov)))
             else None)\<rparr>)"

section \<open>server.js: paths and file names\<close>

text \<open>
  \<^verbatim>\<open>path.join(a, b)\<close> for a directory \<open>a\<close> without a trailing separator and a plain entry name
  \<open>b\<close>, as the server uses it (the normalisation of \<^verbatim>\<open>.\<close> and \<^verbatim>\<open>..\<close> segments is not modelled).
\<close>

definition path_join :: "string \<Rightarrow> string \<Rightarrow> string" where
  "path_join a b = a @ ''/'' @ b"

text \<open>The last segment of a POSIX path, trailing separators ignored.\<close>

definition lastSegment :: "string \<Rightarrow> string" where
  "lastSegment p =
     rev (takeWhile (\<lambda>c. c \<noteq> CHR ''/'') (dropWhile (\<lambda>c. c = CHR ''/'') (rev p)))"

text \<open>
  \<^verbatim>\<open>path.extname\<close> of Node.js: from the last dot of the last segment to its end; empty when
  there is no dot, when the only dot is the first character, and for the segment \<^verbatim>\<open>..\<close>.
\<close>

definition extname :: "string \<Rightarrow> string" where
  "extname p =
     (let b = lastSegment p;
          e = takeWhile (\<lambda>c. c \<noteq> CHR ''.'') (rev b);
          stem = drop (Suc (length e)) (rev b)
      in if stem = [] \<or> b = ''..'' \<or> CHR ''.'' \<notin> set b then []
         else CHR ''.'' # rev e)"

text \<open>\<^verbatim>\<open>path.basename(p, ext)\<close>: the last segment without the suffix \<open>ext\<close>, if it ends with it.\<close>

definition basename :: "string \<Rightarrow> string \<Rightarrow> string" where
  "basename p ext =
     (let b = lastSegment p
      in if ext \<noteq> [] \<and> b \<noteq> ext \<and> length ext \<le> length b
            \<and> drop (length b - length ext) b = ext
         then take (length b - length ext) b else b)"

text \<open>\<^verbatim>\<open>String.prototype.toLowerCase\<close> on the ASCII letters.\<close>

definition toLowerCase :: "string \<Rightarrow> string" where
  "toLowerCase s =
     map (\<lambda>c. case map_of (zip ''ABCDEFGHIJKLMNOPQRSTUVWXYZ'' ''abcdefghijklmnopqrstuvwxyz'') c of
                 None \<Rightarrow> c | Some d \<Rightarrow> d) s"

text \<open>
  \<^verbatim>\<open>filename.replace(/\.(dng|cr2|nef)$/i, '.jpg')\<close>: the pattern matches a dot and one of the
  three extensions, in any mixture of upper and lower case, at the end of the name.
\<close>

definition rawSuffix3 :: "char \<Rightarrow> char \<Rightarrow> char \<Rightarrow> bool" where
  "rawSuffix3 a b c =
     ((a = CHR ''d'' \<or> a = CHR ''D'') \<and> (b = CHR ''n'' \<or> b = CHR ''N'') \<and> (c = CHR ''g'' \<or> c = CHR ''G'')
      \<or> (a = CHR ''c'' \<or> a = CHR ''C'') \<and> (b = CHR ''r'' \<or> b = CHR ''R'') \<and> c = CHR ''2''
      \<or> (a = CHR ''n'' \<or> a = CHR ''N'') \<and> (b = CHR ''e'' \<or> b = CHR ''E'') \<and> (c = CHR ''f'' \<or> c = CHR ''F''))"

fun matchesRaw :: "string \<Rightarrow> bool" where
  "matchesRaw s =
     (case rev s of c # b # a # d # _ \<Rightarrow> d = CHR ''.'' \<and> rawSuffix3 a b c | _ \<Rightarrow> False)"

definition outputName :: "string \<Rightarrow> string" where
  "outputName filename =
     (if matchesRaw filename then take (length filename - 4) filename @ ''.jpg'' else filename)"

section \<open>server.js: the RAW helper\<close>

definition RAW_EXTS :: "string list" where
  "RAW_EXTS = [''.dng'', ''.arw'', ''.cr2'', ''.cr3'', ''.nef'', ''.orf'', ''.raf'', ''.rw2'', ''.srw'']"

definition RASTER_OK :: "string list" where
  "RASTER_OK = [''.jpg'', ''.jpeg'', ''.png'', ''.tif'', ''.tiff'', ''.webp'', ''.bmp'']"

text \<open>
  The converters are external programs. \<open>attemptYields cmd\<close> says that the attempt with the
  program \<open>cmd\<close> returns: \<^verbatim>\<open>runExec\<close> resolves, the \<^verbatim>\<open>post\<close> step (if any) does not throw, and
  \<^verbatim>\<open>existsSync(outTif)\<close> holds afterwards. \<open>tmpdir\<close> is \<^verbatim>\<open>process.env.TMPDIR || os.tmpdir()\<close>.
\<close>

record convEnv =
  tmpdir :: string
  attemptYields :: "string \<Rightarrow> bool"

text \<open>The loop \<^verbatim>\<open>for (const a of attempts)\<close>.\<close>

fun tryAttempts :: "(string \<Rightarrow> bool) \<Rightarrow> string list \<Rightarrow> string \<Rightarrow> string option" where
  "tryAttempts yields [] outTif = None"
| "tryAttempts yields (cmd # cmds) outTif =
     (if yields cmd then Some outTif else tryAttempts yields cmds outTif)"

text \<open>\<^verbatim>\<open>ensureRasterInput(inputPath)\<close>, the argument written \<open>rawPath\<close>: \<open>Inr\<close> the path to decode, \<open>Inl\<close> the message of the thrown error.\<close>

definition ensureRasterInput :: "convEnv \<Rightarrow> string \<Rightarrow> string + string" where
  "ensureRasterInput env rawPath =
     (let ext = toLowerCase (extname rawPath)
      in if ext \<in> set RASTER_OK then Inr rawPath
         else if ext \<notin> set RAW_EXTS then Inr rawPath
         else
           (let tmpOutDir = path_join (tmpdir env) ''raw2tiff'';
                base = basename rawPath ext;
                outTif = path_join tmpOutDir (base @ ''.tif'')
            in case tryAttempts (attemptYields env)
                      [''darktable-cli'', ''rawtherapee-cli'', ''dcraw_emu''] outTif of
                 Some p \<Rightarrow> Inr p
               | None \<Rightarrow> Inl (''RAW-conversie mislukt voor '' @ lastSegment rawPath
                               @ [CHR '' '', CHR 0xE2, CHR 0x80, CHR 0x94]
                               @ '' geen bruikbare converter gevonden'')))"

section \<open>server.js: batches\<close>

datatype status = Uploading | Queued | Processing | Zipping | Done | Error

datatype fileStatus = FileQueued | FileOk | FileFailed

text \<open>An entry of \<^verbatim>\<open>batch.files\<close>: \<^verbatim>\<open>{ name, status, error? }\<close>.\<close>

record fileRecord =
  name :: string
  fileStatus :: fileStatus
  fileError :: "string option"

text \<open>
  The batch object of \<^verbatim>\<open>createBatch\<close>, without its time stamp \<^verbatim>\<open>createdAt\<close>; the field \<^verbatim>\<open>error\<close>
  is absent until an error is recorded.
\<close>

record batch =
  batchId :: string
  mode :: string
  dateText :: string
  eventText :: string
  total :: nat
  processed :: nat
  failed :: nat
  status :: status
  files :: "fileRecord list"
  outDir :: string
  zipPath :: string
  error :: "string option"

text \<open>
  The directories and outcomes the server depends on:
  \<^item> \<open>rootUploads\<close>, \<open>rootStorage\<close>, \<open>dirName\<close>: \<^verbatim>\<open>ROOT_UPLOADS\<close>, \<^verbatim>\<open>ROOT_STORAGE\<close>, \<^verbatim>\<open>__dirname\<close>;
  \<^item> \<open>mkdirResult\<close>: \<open>Some e\<close> when \<^verbatim>\<open>fs.mkdir(outDir, ...)\<close> rejects with \<open>e\<close>;
  \<^item> \<open>uploadsListing\<close>: the result of \<^verbatim>\<open>fs.readdir(uploadsDir)\<close>, \<open>Inl e\<close> when it rejects;
  \<^item> \<open>cpus\<close>: \<^verbatim>\<open>os.cpus()?.length\<close>, \<open>0\<close> when missing;
  \<^item> \<open>workerOutcome\<close>: for a file name, \<open>None\<close> when \<^verbatim>\<open>runWorker\<close> resolves and \<open>Some e\<close> when
    it rejects with \<open>e\<close>;
  \<^item> \<open>outListing\<close>: the result of \<^verbatim>\<open>fs.readdir(outDir)\<close> after the pool, \<open>None\<close> when it
    rejects;
  \<^item> \<open>zipResult\<close>: \<open>Some e\<close> when \<^verbatim>\<open>zipDirectory\<close> rejects with \<open>e\<close>.
\<close>

record serverEnv =
  rootUploads :: string
  rootStorage :: string
  dirName :: string
  mkdirResult :: "string option"
  uploadsListing :: "string + string list"
  cpus :: nat
  workerOutcome :: "string \<Rightarrow> string option"
  outListing :: "string list option"
  zipResult :: "string option"

definition createBatch :: "serverEnv \<Rightarrow> string \<Rightarrow> string \<Rightarrow> string \<Rightarrow> string \<Rightarrow> batch" where
  "createBatch env bid md dt et =
     \<lparr>batchId = bid, mode = md, dateText = dt, eventText = et,
      total = 0, processed = 0, failed = 0, status = Uploading, files = [],
      outDir = path_join (path_join (rootStorage env) bid) ''out'',
      zipPath = path_join (rootStorage env) (bid @ ''.zip''),
      error = None\<rparr>"

text \<open>
  The argument of \<^verbatim>\<open>runWorker\<close> in \<^verbatim>\<open>runOne\<close>. The three layout parameters are not passed.
\<close>

definition payload :: "serverEnv \<Rightarrow> batch \<Rightarrow> string \<Rightarrow> workerData" where
  "payload env b filename =
     (let uploadsDir = path_join (rootUploads env) (batchId b)
      in \<lparr>inputPath = path_join uploadsDir filename,
          outputPath = path_join (outDir b) (outputName filename),
          workerData.mode = batch.mode b,
          workerData.dateText = batch.dateText b,
          workerData.eventText = batch.eventText b,
          logoPath = path_join (path_join (dirName env) ''public'') ''logo.png'',
          marginEm = None, textMaxWidthPct = None, overlayOpacity = None\<rparr>)"

text \<open>
  \<^verbatim>\<open>const f = batch.files.find(x => x.name === filename); if (f) ...\<close>: the first entry with
  that name is changed, if there is one.
\<close>

fun markFile :: "(fileRecord \<Rightarrow> fileRecord) \<Rightarrow> string \<Rightarrow> fileRecord list \<Rightarrow> fileRecord list" where
  "markFile g filename [] = []"
| "markFile g filename (f # fs) =
     (if name f = filename then g f # fs else f # markFile g filename fs)"

section \<open>server.js: the worker pool\<close>

text \<open>
  \<^verbatim>\<open>const workerCount = Math.min(4, Math.max(1, (os.cpus()?.length || 2) - 1));\<close>
\<close>

definition workerCount :: "nat \<Rightarrow> nat" where
  "workerCount n = nat (min 4 (max 1 (int (js_or n 2) - 1)))"

text \<open>
  One slot of the pool is one promise made by \<^verbatim>\<open>runNext()\<close>. A slot is about to call
  \<^verbatim>\<open>runOne()\<close> (\<open>Ready\<close>), awaits the worker it started for a file (\<open>Running\<close>), or has called
  \<^verbatim>\<open>resolve()\<close> (\<open>Resolved\<close>).
\<close>

datatype slot = Ready | Running string | Resolved

text \<open>
  The state shared by the slots: the counter \<^verbatim>\<open>idx\<close>, the slots, the calls of \<^verbatim>\<open>runWorker\<close>
  made so far (slot number and file name, oldest first) and the batch.
\<close>

record pool =
  idx :: nat
  slots :: "slot list"
  dispatched :: "(nat \<times> string) list"
  bat :: batch

text \<open>
  The synchronous part of \<^verbatim>\<open>runOne\<close>, up to its first \<^verbatim>\<open>await\<close>:
  \<^verbatim>\<open>const filename = files[idx++]; if (!filename) return resolve(); ... runWorker({...})\<close>.
  Reading past the end of the array gives \<^verbatim>\<open>undefined\<close>, which like the empty string is falsy.
\<close>

definition runOne :: "string list \<Rightarrow> nat \<Rightarrow> pool \<Rightarrow> pool" where
  "runOne fs w p =
     (let i = idx p; p' = p\<lparr>idx := i + 1\<rparr>
      in if i < length fs \<and> fs ! i \<noteq> []
         then p'\<lparr>slots := (slots p)[w := Running (fs ! i)],
                 dispatched := dispatched p @ [(w, fs ! i)]\<rparr>
         else p'\<lparr>slots := (slots p)[w := Resolved]\<rparr>)"

text \<open>
  The worker of slot \<open>w\<close> has finished: the \<^verbatim>\<open>.then\<close> or the \<^verbatim>\<open>.catch\<close> callback runs, and
  the slot is about to continue with \<^verbatim>\<open>await runOne()\<close>.
\<close>

definition settle :: "(string \<Rightarrow> string option) \<Rightarrow> nat \<Rightarrow> string \<Rightarrow> pool \<Rightarrow> pool" where
  "settle outcome w filename p =
     (let b = bat p;
          b' = (case outcome filename of
                  None \<Rightarrow> b\<lparr>processed := processed b + 1,
                             files := markFile (\<lambda>f. f\<lparr>fileStatus := FileOk\<rparr>) filename (files b)\<rparr>
                | Some e \<Rightarrow> b\<lparr>failed := failed b + 1,
                               files := markFile (\<lambda>f. f\<lparr>fileStatus := FileFailed, fileError := Some e\<rparr>)
                                          filename (files b)\<rparr>)
      in p\<lparr>bat := b', slots := (slots p)[w := Ready]\<rparr>)"

text \<open>One step of slot \<open>w\<close>; a resolved slot, or a number that is no slot, does nothing.\<close>

definition poolStep :: "(string \<Rightarrow> string option) \<Rightarrow> string list \<Rightarrow> nat \<Rightarrow> pool \<Rightarrow> pool" where
  "poolStep outcome fs w p =
     (if w < length (slots p)
      then (case slots p ! w of
              Ready \<Rightarrow> runOne fs w p
            | Running filename \<Rightarrow> settle outcome w filename p
            | Resolved \<Rightarrow> p)
      else p)"

text \<open>
  \<^verbatim>\<open>Promise.all(Array.from({ length: workerCount }, () => runNext()))\<close>: every \<^verbatim>\<open>runNext()\<close>
  runs \<^verbatim>\<open>runOne()\<close> at once, so the slots make their first claim in order before anything
  else happens.
\<close>

definition startPool :: "string list \<Rightarrow> nat \<Rightarrow> batch \<Rightarrow> pool" where
  "startPool fs n b =
     fold (runOne fs) [0..<n] \<lparr>idx = 0, slots = replicate n Ready, dispatched = [], bat = b\<rparr>"

text \<open>
  The event loop then runs the slots in an order the program does not control: a schedule
  is the list of slot numbers in the order in which they take their steps. \<open>poolTrace\<close> lists
  the states the pool goes through, \<open>poolRun\<close> is the last of them.
\<close>

fun poolTrace :: "(string \<Rightarrow> string option) \<Rightarrow> string list \<Rightarrow> nat list \<Rightarrow> pool \<Rightarrow> pool list" where
  "poolTrace outcome fs [] p = [p]"
| "poolTrace outcome fs (w # ws) p = p # poolTrace outcome fs ws (poolStep outcome fs w p)"

definition poolRun :: "(string \<Rightarrow> string option) \<Rightarrow> string list \<Rightarrow> nat list \<Rightarrow> pool \<Rightarrow> pool" where
  "poolRun outcome fs sched p = fold (poolStep outcome fs) sched p"

text \<open>\<^verbatim>\<open>Promise.all\<close> resolves when every slot has resolved.\<close>

definition allResolved :: "pool \<Rightarrow> bool" where
  "allResolved p = list_all (\<lambda>s. s = Resolved) (slots p)"

section \<open>server.js: the life of a batch\<close>

text \<open>
  \<^verbatim>\<open>processBatchInBackground\<close>, run with a schedule for the pool. The result is the list of
  the states the batch goes through, oldest first, and the error with which the promise
  rejects, if it does. When the schedule ends before every slot has resolved, the function
  is still waiting at \<^verbatim>\<open>await Promise.all(...)\<close>, and the list ends there.
  \<open>outFiles\<close> is \<^verbatim>\<open>await fs.readdir(outDir).catch(() => [])\<close>.
\<close>

definition outFiles :: "serverEnv \<Rightarrow> string list" where
  "outFiles env = (case outListing env of None \<Rightarrow> [] | Some l \<Rightarrow> l)"

definition processBatchInBackground :: "serverEnv \<Rightarrow> nat list \<Rightarrow> batch \<Rightarrow> batch list \<times> string option" where
  "processBatchInBackground env sched b =
     (let b1 = b\<lparr>status := Processing\<rparr>
      in case mkdirResult env of
           Some e \<Rightarrow> ([b1], Some e)
         | None \<Rightarrow>
      (case uploadsListing env of
           Inl e \<Rightarrow> ([b1], Some e)
         | Inr fs \<Rightarrow>
      (let tr = poolTrace (workerOutcome env) fs sched (startPool fs (workerCount (cpus env)) b1);
           p = last tr
       in if \<not> allResolved p then (b1 # map bat tr, None)
          else
            (if outFiles env = []
                then (b1 # map bat tr @
                        [(bat p)\<lparr>status := Error,
                                 error := Some ''Er zijn geen bewerkte bestanden geproduceerd (mogelijk faalden alle items).''\<rparr>],
                      None)
                else (case zipResult env of
                        Some e \<Rightarrow> (b1 # map bat tr @ [(bat p)\<lparr>status := Zipping\<rparr>], Some e)
                      | None \<Rightarrow> (b1 # map bat tr @
                                   [(bat p)\<lparr>status := Zipping\<rparr>, (bat p)\<lparr>status := Done\<rparr>],
                                  None))))))"

text \<open>
  The second handler of \<^verbatim>\<open>POST /api/upload\<close>, after the request has passed the checks of the
  first handler and \<^verbatim>\<open>multer\<close> has stored the files: \<open>names\<close> are the original names of the
  uploaded files. The result lists the states of the batch from its creation on; the last
  state comes from \<^verbatim>\<open>.catch(err => { batch.status = 'error'; batch.error = String(err); })\<close>
  when the background promise rejects.
\<close>

definition uploadHandler :: "serverEnv \<Rightarrow> nat list \<Rightarrow> string \<Rightarrow> string \<Rightarrow> string \<Rightarrow> string
                              \<Rightarrow> string list \<Rightarrow> batch list" where
  "uploadHandler env sched bid md dt et names =
     (let b0 = createBatch env bid md dt et;
          b = b0\<lparr>files := map (\<lambda>n. \<lparr>name = n, fileStatus = FileQueued, fileError = None\<rparr>) names,
                 total := length names,
                 status := Queued\<rparr>
      in case processBatchInBackground env sched b of
           (tr, None) \<Rightarrow> b0 # b # tr
         | (tr, Some e) \<Rightarrow> b0 # b # tr @ [(last tr)\<lparr>status := Error, error := Some e\<rparr>])"

section \<open>Notions used in the statements and proofs\<close>





text \<open>The number of slots that await a worker.\<close>

fun awaiting :: "slot \<Rightarrow> nat" where
  "awaiting (Running f) = 1"
| "awaiting s = 0"

definition runningCount :: "slot list \<Rightarrow> nat" where
  "runningCount ss = sum_list (map awaiting ss)"

text \<open>
  The invariant of the pool for the counters: every call of \<^verbatim>\<open>runWorker\<close> is either still
  awaited or counted as processed or failed, and no more calls are made than claims, or than
  there are files.
\<close>

definition countInv :: "string list \<Rightarrow> pool \<Rightarrow> bool" where
  "countInv fs p =
     (processed (bat p) + failed (bat p) + runningCount (slots p) = length (dispatched p)
      \<and> length (dispatched p) \<le> idx p \<and> length (dispatched p) \<le> length fs)"

text \<open>
  The invariant of the pool for the claims: the calls of \<^verbatim>\<open>runWorker\<close>, in order, are for the
  first \<open>idx\<close> files of the listing, each made by a slot of the pool; and a slot resolves only
  after the counter has passed the end of the listing.
\<close>

definition claimInv :: "string list \<Rightarrow> pool \<Rightarrow> bool" where
  "claimInv fs p =
     (map snd (dispatched p) = take (idx p) fs
      \<and> list_all (\<lambda>d. fst d < length (slots p)) (dispatched p)
      \<and> (list_ex (\<lambda>s. s = Resolved) (slots p) \<longrightarrow> length fs < idx p))"

text \<open>
  A measure of the work left in the pool; it decreases with each step of a slot that has
  not resolved.
\<close>

fun slotCost :: "slot \<Rightarrow> nat" where
  "slotCost Ready = 1"
| "slotCost (Running f) = 2"
| "slotCost Resolved = 0"

definition workLeft :: "string list \<Rightarrow> pool \<Rightarrow> nat" where
  "workLeft fs p = 2 * (length fs - idx p) + sum_list (map slotCost (slots p))"

text \<open>
  What is assumed of the listing of the upload directory, if it can be read: it has no entry
  twice, its entries are the names of the uploaded files, and no entry is the empty name.
\<close>

definition listingOk :: "serverEnv \<Rightarrow> string list \<Rightarrow> bool" where
  "listingOk env names =
     (case uploadsListing env of
        Inl e \<Rightarrow> True
      | Inr fs \<Rightarrow> distinct fs \<and> set fs = set names \<and> [] \<notin> set fs)"

text \<open>The batch as the upload handler leaves it before the background processing starts.\<close>

definition queuedBatch :: "serverEnv \<Rightarrow> string \<Rightarrow> string \<Rightarrow> string \<Rightarrow> string \<Rightarrow> string list \<Rightarrow> batch" where
  "queuedBatch env bid md dt et names =
     (createBatch env bid md dt et)
       \<lparr>files := map (\<lambda>n. \<lparr>name = n, fileStatus = FileQueued, fileError = None\<rparr>) names,
        total := length names, status := Queued\<rparr>"



section \<open>Sample inputs\<close>

text \<open>A renderer for which every character is as wide as the font size.\<close>

definition sampleRender :: renderer where
  "sampleRender t f = (int (length t) * f, f)"

definition sampleSharp :: sharpEnv where
  "sampleSharp =
     \<lparr>renderMeta = sampleRender, logo = (\<lambda>h. LogoMissing),
      composite = (\<lambda>w h ls. [\<lparr>red = 255, green = 255, blue = 255, alpha = 200\<rparr>]),
      toSample = (\<lambda>x. word_of_int \<lfloor>x\<rfloor>), imageMeta = (\<lambda>p. (100, 200))\<rparr>"

text \<open>A worker request for a watermark, and a converter environment in which the second tool works.\<close>

definition sampleData :: workerData where
  "sampleData =
     \<lparr>inputPath = ''/app/uploads/b1/IMG_1.jpg'', outputPath = ''/app/storage/b1/out/IMG_1.jpg'',
      mode = ''watermark-only'', dateText = ''2024-05-01'', eventText = ''Team Offsite'',
      logoPath = ''/app/public/logo.png'',
      marginEm = None, textMaxWidthPct = None, overlayOpacity = None\<rparr>"

definition sampleConv :: convEnv where
  "sampleConv = \<lparr>tmpdir = ''/tmp'', attemptYields = (\<lambda>cmd. cmd = ''rawtherapee-cli'')\<rparr>"

text \<open>A server environment and a batch holding one RAW file.\<close>

definition sampleServer :: serverEnv where
  "sampleServer =
     \<lparr>rootUploads = ''/app/uploads'', rootStorage = ''/app/storage'', dirName = ''/app'',
      mkdirResult = None, uploadsListing = Inr [''IMG_1.dng''], cpus = 2,
      workerOutcome = (\<lambda>f. None), outListing = Some [''IMG_1.jpg''], zipResult = None\<rparr>"

definition sampleBatch :: batch where
  "sampleBatch = (createBatch sampleServer ''b1'' ''edit-only'' '''' '''')
     \<lparr>files := [\<lparr>name = ''IMG_1.dng'', fileStatus = FileQueued, fileError = None\<rparr>],
      total := 1, status := Processing\<rparr>"

text \<open>A listing of three files, of which the second fails, and a schedule for two slots.\<close>

definition sampleFiles :: "string list" where
  "sampleFiles = [''a.jpg'', ''b.dng'', ''c.png'']"

definition sampleOutcome :: "string \<Rightarrow> string option" where
  "sampleOutcome f = (if f = ''b.dng'' then Some ''decode failed'' else None)"

definition sampleSchedule :: "nat list" where
  "sampleSchedule = [1, 1, 0, 0, 1, 1]"

text \<open>The sample server with a failing \<^verbatim>\<open>mkdir\<close>, and with a failing archiver.\<close>

definition failedMkdir :: serverEnv where
  "failedMkdir = sampleServer\<lparr>mkdirResult := Some ''EACCES''\<rparr>"


section \<open>Properties of the layout metrics\<close>



section \<open>Properties of the word wrap\<close>






lemma srcText_render [simp]: "srcText (renderTrimmedLine m t f) = t"
  by (simp add: renderTrimmedLine_def split: prod.splits)

lemma srcFont_render [simp]: "srcFont (renderTrimmedLine m t f) = f"
  by (simp add: renderTrimmedLine_def split: prod.splits)











section \<open>Properties of the overlay\<close>

lemma buildWatermarkOverlay_Some:
  "\<exists>ov. buildWatermarkOverlay env bw bh dt et mEm pct opac = Some ov
        \<and> fontSize ov = eventFont bw bh \<and> marginPx ov = marginPx_of mEm (eventFont bw bh)"
  by (simp add: buildWatermarkOverlay_def split: prod.splits)



subsection \<open>The sample overlay\<close>

lemma sample_cast_exact: "(word_of_int \<lfloor>real (unat v)\<rfloor> :: 8 word) = v"
proof -
  have "\<lfloor>real (unat v)\<rfloor> = int (unat v)" by (rule floor_of_nat)
  then have "(word_of_int \<lfloor>real (unat v)\<rfloor> :: 8 word) = word_of_int (int (unat v))"
    by (simp only:)
  also have "\<dots> = v" by simp
  finally show ?thesis .
qed

lemma sample_canvas:
  "watermarkCanvas sampleSharp 100 200 ''2024-05-01'' ''Team Offsite'' 1 0.9
     = ([\<lparr>red = 255, green = 255, blue = 255, alpha = 200\<rparr>], 192, 76)"
  by (simp add: watermarkCanvas_def sampleSharp_def eventFont_def padding_def lineGap_def
      marginPx_of_def maxTextBlockWidth_def combinedText_def js_trim_def js_round_def js_or_def
      clamp_def is_space_def wrapTextToWidth_def tryLine_def renderTrimmedLine_def sampleRender_def
      Let_def)

lemma sample_exact: "\<forall>v::8 word. toSample sampleSharp (real (unat v)) = v"
  by (simp only: sampleSharp_def sharpEnv.select_convs sample_cast_exact simp_thms)

lemma sample_overlay:
  "buildWatermarkOverlay sampleSharp 100 200 ''2024-05-01'' ''Team Offsite'' 1 0.9 0.75
     = Some \<lparr>buffer = [\<lparr>red = 255, green = 255, blue = 255, alpha = 150\<rparr>], width = 192,
             height = 76, fontSize = 18, marginPx = 18\<rparr>"
  unfolding buildWatermarkOverlay_def sample_canvas
  by (simp add: applyOpacity_def linear_def eventFont_def marginPx_of_def js_round_def js_or_def
      clamp_def sampleSharp_def)

subsection \<open>Opacity\<close>

lemma applyOpacity_pixels:
  assumes exact: "\<forall>v::8 word. q (real (unat v)) = v"
  shows "length (applyOpacity q opac img) = length img
     \<and> (\<forall>i<length img.
          red (applyOpacity q opac img ! i) = red (img ! i)
        \<and> green (applyOpacity q opac img ! i) = green (img ! i)
        \<and> blue (applyOpacity q opac img ! i) = blue (img ! i)
        \<and> alpha (applyOpacity q opac img ! i) = q (clamp opac 0 1 * real (unat (alpha (img ! i)))))"
  using exact by (simp add: applyOpacity_def linear_def clamp_def Let_def)

text \<open>
  Claim C8. The opacity step changes only the alpha channel: for every overlay that
  \<^verbatim>\<open>buildWatermarkOverlay\<close> returns and every \<open>overlayOpacity\<close>, each pixel of the result has the
  red, green and blue samples of the composited canvas, and its alpha sample is the old
  alpha times \<open>clamp(overlayOpacity, 0, 1)\<close>, written back as a sample. The hypothesis is
  that writing back a value that is a sample already gives that sample.
\<close>

theorem opacity_alpha_only:
  assumes exact: "\<forall>v::8 word. toSample env (real (unat v)) = v"
    and built: "buildWatermarkOverlay env bw bh dt et mEm pct opac = Some ov"
    and canvas: "watermarkCanvas env bw bh dt et mEm pct = (wm, w, h)"
  shows "length (buffer ov) = length wm
     \<and> (\<forall>i<length wm.
          red (buffer ov ! i) = red (wm ! i)
        \<and> green (buffer ov ! i) = green (wm ! i)
        \<and> blue (buffer ov ! i) = blue (wm ! i)
        \<and> alpha (buffer ov ! i) = toSample env (clamp opac 0 1 * real (unat (alpha (wm ! i)))))"
proof -
  from built canvas have "buffer ov = applyOpacity (toSample env) opac wm"
    by (auto simp: buildWatermarkOverlay_def)
  with applyOpacity_pixels [OF exact, of opac wm] show ?thesis by simp
qed

theorem opacity_alpha_only_witness:
  "(\<forall>v::8 word. toSample sampleSharp (real (unat v)) = v)
   \<and> watermarkCanvas sampleSharp 100 200 ''2024-05-01'' ''Team Offsite'' 1 0.9
        = ([\<lparr>red = 255, green = 255, blue = 255, alpha = 200\<rparr>], 192, 76)
   \<and> (\<exists>ov. buildWatermarkOverlay sampleSharp 100 200 ''2024-05-01'' ''Team Offsite'' 1 0.9 0.75 = Some ov
          \<and> red (buffer ov ! 0) = 255 \<and> green (buffer ov ! 0) = 255 \<and> blue (buffer ov ! 0) = 255
          \<and> alpha (buffer ov ! 0) = 150)"
proof -
  note exact = sample_exact
  obtain ov where ov: "buildWatermarkOverlay sampleSharp 100 200 ''2024-05-01'' ''Team Offsite'' 1 0.9 0.75 = Some ov"
    using sample_overlay by blast
  have q: "toSample sampleSharp (clamp 0.75 0 1 * real (unat (200 :: 8 word))) = 150"
    by (simp add: sampleSharp_def clamp_def)
  from opacity_alpha_only [OF exact ov sample_canvas] q
  have "red (buffer ov ! 0) = 255 \<and> green (buffer ov ! 0) = 255 \<and> blue (buffer ov ! 0) = 255
          \<and> alpha (buffer ov ! 0) = 150"
    by simp
  with exact ov sample_canvas show ?thesis by blast
qed

section \<open>Properties of the placement\<close>

lemma position_bounds:
  "0 \<le> overlayLeft bw w m \<and> 0 \<le> overlayTop bh h m
   \<and> (0 \<le> m \<and> w \<le> bw \<longrightarrow> overlayLeft bw w m + w \<le> bw)
   \<and> (0 \<le> m \<and> h \<le> bh \<longrightarrow> overlayTop bh h m + h \<le> bh)
   \<and> (bw \<le> w + m \<longrightarrow> overlayLeft bw w m = 0)
   \<and> (bh \<le> h + m \<longrightarrow> overlayTop bh h m = 0)"
  by (auto simp: overlayLeft_def overlayTop_def)

lemma marginPx_of_nonneg: "0 \<le> marginPx_of mEm f"
  by (simp add: marginPx_of_def)

text \<open>
  Claim C9. Whenever the worker composites an overlay, it places it at
  \<open>left = max(0, baseWidth - overlayWidth - marginPx)\<close> and
  \<open>top = max(0, baseHeight - overlayHeight - marginPx)\<close>. Neither offset is negative; an
  offset is \<open>0\<close> when overlay plus margin do not fit; the offsets do not exceed the width
  and the height of the photo; and an overlay that is not larger than the photo lies inside
  it.
\<close>

theorem overlay_position:
  assumes "composited (workerMain env wd) = Some (buf, x, y)"
  shows "\<exists>ov bw bh.
           bw = js_or (fst (imageMeta env (inputPath wd))) 2000
         \<and> bh = js_or (snd (imageMeta env (inputPath wd))) 1333
         \<and> buildWatermarkOverlay env bw bh (workerData.dateText wd) (workerData.eventText wd)
              (case marginEm wd of None \<Rightarrow> 1 | Some v \<Rightarrow> v)
              (case textMaxWidthPct wd of None \<Rightarrow> 0.9 | Some v \<Rightarrow> v)
              (case overlayOpacity wd of None \<Rightarrow> 0.75 | Some v \<Rightarrow> v) = Some ov
         \<and> buf = buffer ov
         \<and> x = max 0 (bw - overlay.width ov - marginPx ov)
         \<and> y = max 0 (bh - overlay.height ov - marginPx ov)
         \<and> 0 \<le> x \<and> 0 \<le> y
         \<and> (bw \<le> overlay.width ov + marginPx ov \<longrightarrow> x = 0)
         \<and> (bh \<le> overlay.height ov + marginPx ov \<longrightarrow> y = 0)
         \<and> (0 \<le> overlay.width ov \<longrightarrow> x \<le> max 0 bw)
         \<and> (0 \<le> overlay.height ov \<longrightarrow> y \<le> max 0 bh)
         \<and> (overlay.width ov \<le> bw \<longrightarrow> x + overlay.width ov \<le> bw)
         \<and> (overlay.height ov \<le> bh \<longrightarrow> y + overlay.height ov \<le> bh)"
proof -
  define bw where "bw = js_or (fst (imageMeta env (inputPath wd))) 2000"
  define bh where "bh = js_or (snd (imageMeta env (inputPath wd))) 1333"
  define mE where "mE = (case marginEm wd of None \<Rightarrow> 1 | Some v \<Rightarrow> v)"
  obtain ov where ov: "buildWatermarkOverlay env bw bh (workerData.dateText wd) (workerData.eventText wd)
              mE (case textMaxWidthPct wd of None \<Rightarrow> 0.9 | Some v \<Rightarrow> v)
              (case overlayOpacity wd of None \<Rightarrow> 0.75 | Some v \<Rightarrow> v) = Some ov"
    and m: "marginPx ov = marginPx_of mE (eventFont bw bh)"
    using buildWatermarkOverlay_Some by blast
  have m0: "0 \<le> marginPx ov" by (simp add: m marginPx_of_nonneg)
  from assms ov have r: "buf = buffer ov"
      "x = overlayLeft bw (overlay.width ov) (marginPx ov)"
      "y = overlayTop bh (overlay.height ov) (marginPx ov)"
    by (auto simp: workerMain_def Let_def bw_def bh_def mE_def split: prod.splits if_splits)
  from position_bounds [of bw "overlay.width ov" "marginPx ov" bh "overlay.height ov"] m0 r ov
  show ?thesis
    unfolding bw_def [symmetric] bh_def [symmetric] mE_def [symmetric]
    by (auto simp: overlayLeft_def overlayTop_def)
qed

theorem overlay_position_witness:
  "composited (workerMain sampleSharp sampleData)
     = Some ([\<lparr>red = 255, green = 255, blue = 255, alpha = 150\<rparr>], 0, 106)
   \<and> (\<exists>ov. buildWatermarkOverlay sampleSharp 100 200 ''2024-05-01'' ''Team Offsite'' 1 0.9 0.75 = Some ov
          \<and> overlay.width ov = 192 \<and> overlay.height ov = 76 \<and> marginPx ov = 18
          \<and> (0::int) = max 0 (100 - overlay.width ov - marginPx ov)
          \<and> (106::int) = max 0 (200 - overlay.height ov - marginPx ov))"
proof -
  note b = sample_overlay
  have b': "buildWatermarkOverlay sampleSharp 100 200 ''2024-05-01'' ''Team Offsite'' 1 (9 / 10) (3 / 4)
     = Some \<lparr>buffer = [\<lparr>red = 255, green = 255, blue = 255, alpha = 150\<rparr>], width = 192,
             height = 76, fontSize = 18, marginPx = 18\<rparr>"
    using b by simp
  have c: "composited (workerMain sampleSharp sampleData)
     = Some ([\<lparr>red = 255, green = 255, blue = 255, alpha = 150\<rparr>], 0, 106)"
    by (simp add: workerMain_def sampleData_def b' overlayLeft_def overlayTop_def js_or_def
        sampleSharp_def [THEN arg_cong, of imageMeta])
  from overlay_position [OF c] b c show ?thesis
    by (simp add: sampleData_def js_or_def sampleSharp_def [THEN arg_cong, of imageMeta])
qed

section \<open>Properties of the file names\<close>






section \<open>The RAW helper is not called\<close>

text \<open>
  Claim C1 does not hold of the code. \<^verbatim>\<open>ensureRasterInput\<close> is defined in \<^verbatim>\<open>server.js\<close> and
  called nowhere: \<^verbatim>\<open>runOne\<close> passes the path of the uploaded file to the worker, and the worker
  decodes that path. For a batch with the file \<^verbatim>\<open>IMG_1.dng\<close> the worker decodes
  \<^verbatim>\<open>/app/uploads/b1/IMG_1.dng\<close>, whose extension is a RAW extension, where the helper would have
  produced \<^verbatim>\<open>/tmp/raw2tiff/IMG_1.tif\<close>.
\<close>

theorem raw_input_not_converted:
  "dispatched (startPool [''IMG_1.dng''] (workerCount (cpus sampleServer)) sampleBatch)
     = [(0, ''IMG_1.dng'')]
   \<and> inputPath (payload sampleServer sampleBatch ''IMG_1.dng'') = ''/app/uploads/b1/IMG_1.dng''
   \<and> decodedPath (workerMain sampleSharp (payload sampleServer sampleBatch ''IMG_1.dng''))
        = ''/app/uploads/b1/IMG_1.dng''
   \<and> toLowerCase (extname ''/app/uploads/b1/IMG_1.dng'') = ''.dng''
   \<and> ''.dng'' \<in> set RAW_EXTS
   \<and> ensureRasterInput sampleConv ''/app/uploads/b1/IMG_1.dng'' = Inr ''/tmp/raw2tiff/IMG_1.tif''"
proof -
  have p: "inputPath (payload sampleServer sampleBatch ''IMG_1.dng'') = ''/app/uploads/b1/IMG_1.dng''"
    by (simp add: payload_def sampleBatch_def createBatch_def sampleServer_def path_join_def)
  have d: "dispatched (startPool [''IMG_1.dng''] (workerCount (cpus sampleServer)) sampleBatch)
     = [(0, ''IMG_1.dng'')]"
    by (simp add: startPool_def workerCount_def sampleServer_def js_or_def runOne_def Let_def)
  have e: "toLowerCase (extname ''/app/uploads/b1/IMG_1.dng'') = ''.dng''"
    by (simp add: extname_def lastSegment_def toLowerCase_def Let_def)
  have r: "ensureRasterInput sampleConv ''/app/uploads/b1/IMG_1.dng'' = Inr ''/tmp/raw2tiff/IMG_1.tif''"
    unfolding ensureRasterInput_def e
    by (simp add: RAW_EXTS_def RASTER_OK_def basename_def lastSegment_def sampleConv_def
        path_join_def Let_def)
  show ?thesis using p d e r by (simp add: workerMain_def Let_def RAW_EXTS_def split: prod.splits)
qed

section \<open>Properties of the worker pool\<close>

lemma sum_list_map_update:
  fixes f :: "'a \<Rightarrow> nat"
  shows "i < length xs \<Longrightarrow> sum_list (map f (xs[i := x])) + f (xs ! i) = sum_list (map f xs) + f x"
proof (induction xs arbitrary: i)
  case Nil
  then show ?case by simp
next
  case (Cons y ys)
  show ?case
  proof (cases i)
    case 0
    then show ?thesis by simp
  next
    case (Suc j)
    with Cons.prems have "j < length ys" by simp
    from Cons.IH [OF this] Suc show ?thesis by simp
  qed
qed

lemma runningCount_update:
  "i < length ss \<Longrightarrow> runningCount (ss[i := s]) + awaiting (ss ! i) = runningCount ss + awaiting s"
  unfolding runningCount_def by (rule sum_list_map_update)

subsection \<open>What one step changes\<close>

lemma runOne_bat [simp]: "bat (runOne fs w p) = bat p"
  by (simp add: runOne_def Let_def)

lemma runOne_slots_length [simp]: "length (slots (runOne fs w p)) = length (slots p)"
  by (simp add: runOne_def Let_def)

lemma settle_slots_length [simp]: "length (slots (settle outcome w f p)) = length (slots p)"
  by (simp add: settle_def Let_def)

lemma settle_dispatched [simp]: "dispatched (settle outcome w f p) = dispatched p"
  by (simp add: settle_def Let_def)

lemma settle_idx [simp]: "idx (settle outcome w f p) = idx p"
  by (simp add: settle_def Let_def)

lemma settle_frame [simp]:
  "total (bat (settle outcome w f p)) = total (bat p)"
  "status (bat (settle outcome w f p)) = status (bat p)"
  by (simp_all add: settle_def Let_def split: option.splits)

lemma settle_counters:
  "processed (bat (settle outcome w f p)) + failed (bat (settle outcome w f p))
     = Suc (processed (bat p) + failed (bat p))"
  by (simp add: settle_def Let_def split: option.splits)

lemma poolStep_slots_length [simp]: "length (slots (poolStep outcome fs w p)) = length (slots p)"
  by (simp add: poolStep_def split: slot.splits)

lemma poolStep_frame [simp]:
  "total (bat (poolStep outcome fs w p)) = total (bat p)"
  "status (bat (poolStep outcome fs w p)) = status (bat p)"
  by (simp_all add: poolStep_def split: slot.splits)

subsection \<open>The counters\<close>

lemma runOne_countInv:
  assumes w: "w < length (slots p)" and r: "slots p ! w = Ready" and inv: "countInv fs p"
  shows "countInv fs (runOne fs w p)"
proof (cases "idx p < length fs \<and> fs ! idx p \<noteq> []")
  case True
  from runningCount_update [OF w, of "Running (fs ! idx p)"] r
  have "runningCount ((slots p)[w := Running (fs ! idx p)]) = Suc (runningCount (slots p))"
    by simp
  with True inv show ?thesis by (simp add: countInv_def runOne_def Let_def)
next
  case False
  from runningCount_update [OF w, of Resolved] r
  have "runningCount ((slots p)[w := Resolved]) = runningCount (slots p)" by simp
  with False inv show ?thesis by (auto simp: countInv_def runOne_def Let_def)
qed

lemma settle_countInv:
  assumes w: "w < length (slots p)" and r: "slots p ! w = Running f" and inv: "countInv fs p"
  shows "countInv fs (settle outcome w f p)"
proof -
  from runningCount_update [OF w, of Ready] r
  have "Suc (runningCount ((slots p)[w := Ready])) = runningCount (slots p)" by simp
  moreover have "slots (settle outcome w f p) = (slots p)[w := Ready]"
    by (simp add: settle_def Let_def)
  ultimately show ?thesis using inv settle_counters [of outcome w f p]
    by (simp add: countInv_def)
qed

lemma poolStep_countInv: "countInv fs p \<Longrightarrow> countInv fs (poolStep outcome fs w p)"
  by (auto simp: poolStep_def runOne_countInv settle_countInv split: slot.splits)

subsection \<open>The claims\<close>

lemma runOne_claimInv:
  assumes nb: "[] \<notin> set fs" and w: "w < length (slots p)" and inv: "claimInv fs p"
  shows "claimInv fs (runOne fs w p)"
proof (cases "idx p < length fs")
  case True
  then have ne: "fs ! idx p \<noteq> []" using nb by (metis nth_mem)
  have t: "take (Suc (idx p)) fs = take (idx p) fs @ [fs ! idx p]"
    using True by (rule take_Suc_conv_app_nth)
  have keep: "list_ex (\<lambda>s. s = Resolved) ((slots p)[w := Running (fs ! idx p)])
        \<Longrightarrow> list_ex (\<lambda>s. s = Resolved) (slots p)"
    by (auto simp: list_ex_iff dest!: set_update_subset_insert [THEN subsetD])
  from inv True ne t w keep show ?thesis
    by (auto simp: claimInv_def runOne_def Let_def)
next
  case False
  then have "take (Suc (idx p)) fs = take (idx p) fs" by simp
  with inv False show ?thesis by (simp add: claimInv_def runOne_def Let_def)
qed

lemma settle_claimInv:
  assumes inv: "claimInv fs p"
  shows "claimInv fs (settle outcome w f p)"
proof -
  have s: "slots (settle outcome w f p) = (slots p)[w := Ready]"
    by (simp add: settle_def Let_def)
  have keep: "list_ex (\<lambda>s. s = Resolved) ((slots p)[w := Ready])
        \<Longrightarrow> list_ex (\<lambda>s. s = Resolved) (slots p)"
    by (auto simp: list_ex_iff dest!: set_update_subset_insert [THEN subsetD])
  from inv keep show ?thesis by (auto simp: claimInv_def s)
qed

lemma poolStep_claimInv:
  "[] \<notin> set fs \<Longrightarrow> claimInv fs p \<Longrightarrow> claimInv fs (poolStep outcome fs w p)"
  by (auto simp: poolStep_def runOne_claimInv settle_claimInv split: slot.splits)

subsection \<open>Starting the pool\<close>

lemma runOne_slots_other: "j \<noteq> w \<Longrightarrow> slots (runOne fs w p) ! j = slots p ! j"
  by (simp add: runOne_def Let_def)

lemma claimInv_init:
  "claimInv fs \<lparr>idx = 0, slots = replicate n Ready, dispatched = [], bat = b\<rparr>"
  by (simp add: claimInv_def list_ex_iff)

lemma countInv_init:
  "processed b = 0 \<Longrightarrow> failed b = 0 \<Longrightarrow>
   countInv fs \<lparr>idx = 0, slots = replicate n Ready, dispatched = [], bat = b\<rparr>"
  by (simp add: countInv_def runningCount_def sum_list_replicate)

lemma startPool_prefix:
  "k \<le> n \<Longrightarrow>
     length (slots (fold (runOne fs) [0..<k] \<lparr>idx = 0, slots = replicate n Ready, dispatched = [], bat = b\<rparr>)) = n \<and> (\<forall>j. k \<le> j \<and> j < n \<longrightarrow> slots (fold (runOne fs) [0..<k] \<lparr>idx = 0, slots = replicate n Ready, dispatched = [], bat = b\<rparr>) ! j = Ready) \<and> bat (fold (runOne fs) [0..<k] \<lparr>idx = 0, slots = replicate n Ready, dispatched = [], bat = b\<rparr>) = b
       \<and> (processed b = 0 \<and> failed b = 0 \<longrightarrow> countInv fs (fold (runOne fs) [0..<k] \<lparr>idx = 0, slots = replicate n Ready, dispatched = [], bat = b\<rparr>))
       \<and> ([] \<notin> set fs \<longrightarrow> claimInv fs (fold (runOne fs) [0..<k] \<lparr>idx = 0, slots = replicate n Ready, dispatched = [], bat = b\<rparr>))"
proof (induction k)
  case 0
  then show ?case by (simp add: claimInv_init countInv_init)
next
  case (Suc k)
  let ?q = "fold (runOne fs) [0..<k] \<lparr>idx = 0, slots = replicate n Ready, dispatched = [], bat = b\<rparr>"
  from Suc have ih: "length (slots ?q) = n" "\<forall>j. k \<le> j \<and> j < n \<longrightarrow> slots ?q ! j = Ready"
      "bat ?q = b" "processed b = 0 \<and> failed b = 0 \<longrightarrow> countInv fs ?q"
      "[] \<notin> set fs \<longrightarrow> claimInv fs ?q"
    by simp_all
  from Suc.prems have kn: "k < n" by simp
  with ih have w: "k < length (slots ?q)" and r: "slots ?q ! k = Ready" by simp_all
  have step: "fold (runOne fs) [0..<Suc k] \<lparr>idx = 0, slots = replicate n Ready, dispatched = [], bat = b\<rparr>
      = runOne fs k ?q"
    by simp
  have "\<forall>j. Suc k \<le> j \<and> j < n \<longrightarrow> slots (runOne fs k ?q) ! j = Ready"
    using ih(2) by (simp add: runOne_slots_other)
  moreover have "processed b = 0 \<and> failed b = 0 \<longrightarrow> countInv fs (runOne fs k ?q)"
    using ih(4) runOne_countInv [OF w r] by blast
  moreover have "[] \<notin> set fs \<longrightarrow> claimInv fs (runOne fs k ?q)"
    using ih(5) runOne_claimInv [OF _ w] by blast
  ultimately show ?case unfolding step using ih(1,3) by simp
qed

lemma startPool_props:
  "length (slots (startPool fs n b)) = n"
  "bat (startPool fs n b) = b"
  "processed b = 0 \<Longrightarrow> failed b = 0 \<Longrightarrow> countInv fs (startPool fs n b)"
  "[] \<notin> set fs \<Longrightarrow> claimInv fs (startPool fs n b)"
  using startPool_prefix [of n n fs b] by (simp_all add: startPool_def)

subsection \<open>Runs of the pool\<close>

lemma poolRun_Nil [simp]: "poolRun outcome fs [] p = p"
  by (simp add: poolRun_def)

lemma poolRun_Cons [simp]:
  "poolRun outcome fs (w # ws) p = poolRun outcome fs ws (poolStep outcome fs w p)"
  by (simp add: poolRun_def)

lemma poolRun_append:
  "poolRun outcome fs (xs @ ys) p = poolRun outcome fs ys (poolRun outcome fs xs p)"
  by (simp add: poolRun_def)

lemma last_poolTrace: "last (poolTrace outcome fs sched p) = poolRun outcome fs sched p"
proof (induction sched arbitrary: p)
  case Nil
  then show ?case by simp
next
  case (Cons w ws)
  have "poolTrace outcome fs ws (poolStep outcome fs w p) \<noteq> []" by (cases ws) simp_all
  with Cons show ?case by simp
qed

lemma poolTrace_invariant:
  assumes step: "\<And>w p. I p \<Longrightarrow> I (poolStep outcome fs w p)"
  shows "I p \<Longrightarrow> q \<in> set (poolTrace outcome fs sched p) \<Longrightarrow> I q"
proof (induction sched arbitrary: p)
  case Nil
  then show ?case by simp
next
  case (Cons w ws)
  from Cons.prems(2) have "q = p \<or> q \<in> set (poolTrace outcome fs ws (poolStep outcome fs w p))"
    by simp
  then show ?case
  proof
    assume "q = p" with Cons.prems(1) show ?thesis by simp
  next
    assume "q \<in> set (poolTrace outcome fs ws (poolStep outcome fs w p))"
    with step [OF Cons.prems(1)] show ?thesis by (rule Cons.IH)
  qed
qed

lemma poolRun_in_trace: "poolRun outcome fs sched p \<in> set (poolTrace outcome fs sched p)"
proof -
  have "poolTrace outcome fs sched p \<noteq> []" by (cases sched) simp_all
  then have "last (poolTrace outcome fs sched p) \<in> set (poolTrace outcome fs sched p)"
    by (rule last_in_set)
  then show ?thesis by (simp only: last_poolTrace)
qed

subsection \<open>The pool can always finish\<close>

lemma slotCost_update:
  "i < length ss \<Longrightarrow>
   sum_list (map slotCost (ss[i := s])) + slotCost (ss ! i) = sum_list (map slotCost ss) + slotCost s"
  by (rule sum_list_map_update)

lemma poolStep_workLeft:
  assumes w: "w < length (slots p)" and nr: "slots p ! w \<noteq> Resolved"
  shows "workLeft fs (poolStep outcome fs w p) < workLeft fs p"
proof (cases "slots p ! w")
  case Ready
  show ?thesis
  proof (cases "idx p < length fs \<and> fs ! idx p \<noteq> []")
    case True
    from slotCost_update [OF w, of "Running (fs ! idx p)"] Ready
    have "sum_list (map slotCost ((slots p)[w := Running (fs ! idx p)]))
            = Suc (sum_list (map slotCost (slots p)))"
      by simp
    moreover from True have "Suc (2 * (length fs - Suc (idx p))) < 2 * (length fs - idx p)"
      by arith
    ultimately show ?thesis using True w Ready
      by (simp add: workLeft_def poolStep_def runOne_def Let_def)
  next
    case False
    from slotCost_update [OF w, of Resolved] Ready
    have "Suc (sum_list (map slotCost ((slots p)[w := Resolved])))
            = sum_list (map slotCost (slots p))"
      by simp
    with False w Ready show ?thesis
      by (auto simp: workLeft_def poolStep_def runOne_def Let_def)
  qed
next
  case (Running f)
  from slotCost_update [OF w, of Ready] Running
  have "Suc (sum_list (map slotCost ((slots p)[w := Ready]))) = sum_list (map slotCost (slots p))"
    by simp
  with w Running show ?thesis
    by (simp add: workLeft_def poolStep_def settle_def Let_def)
next
  case Resolved
  with nr show ?thesis by simp
qed

lemma pool_can_finish: "\<exists>sched. allResolved (poolRun outcome fs sched p)"
proof (induction "workLeft fs p" arbitrary: p rule: less_induct)
  case less
  show ?case
  proof (cases "allResolved p")
    case True
    then have "allResolved (poolRun outcome fs [] p)" by simp
    then show ?thesis ..
  next
    case False
    then obtain s where "s \<in> set (slots p)" "s \<noteq> Resolved"
      by (auto simp: allResolved_def list_all_iff)
    then obtain w where w: "w < length (slots p)" "slots p ! w \<noteq> Resolved"
      by (auto simp: in_set_conv_nth)
    then have "workLeft fs (poolStep outcome fs w p) < workLeft fs p"
      by (rule poolStep_workLeft)
    from less [OF this] obtain sched
      where "allResolved (poolRun outcome fs sched (poolStep outcome fs w p))" ..
    then have "allResolved (poolRun outcome fs (w # sched) p)" by simp
    then show ?thesis ..
  qed
qed

lemma poolRun_claimInv:
  "[] \<notin> set fs \<Longrightarrow> claimInv fs p \<Longrightarrow> claimInv fs (poolRun outcome fs sched p)"
  by (induction sched arbitrary: p) (simp_all add: poolStep_claimInv)

lemma poolRun_countInv: "countInv fs p \<Longrightarrow> countInv fs (poolRun outcome fs sched p)"
  by (induction sched arbitrary: p) (simp_all add: poolStep_countInv)

lemma poolRun_slots_length [simp]: "length (slots (poolRun outcome fs sched p)) = length (slots p)"
  by (induction sched arbitrary: p) simp_all

lemma poolRun_frame [simp]:
  "total (bat (poolRun outcome fs sched p)) = total (bat p)"
  "status (bat (poolRun outcome fs sched p)) = status (bat p)"
  by (induction sched arbitrary: p) simp_all

lemma allResolved_idx:
  assumes inv: "claimInv fs p" and n: "slots p \<noteq> []" and res: "allResolved p"
  shows "length fs < idx p"
proof -
  from n obtain s ss where "slots p = s # ss" by (cases "slots p") auto
  with res have "list_ex (\<lambda>s. s = Resolved) (slots p)" by (simp add: allResolved_def)
  with inv show ?thesis by (simp add: claimInv_def)
qed

lemma allResolved_dispatched:
  assumes inv: "claimInv fs p" and n: "slots p \<noteq> []" and res: "allResolved p"
  shows "map snd (dispatched p) = fs"
  using allResolved_idx [OF assms] inv by (simp add: claimInv_def)

lemma allResolved_runningCount: "allResolved p \<Longrightarrow> runningCount (slots p) = 0"
proof -
  have "list_all (\<lambda>s. s = Resolved) ss \<Longrightarrow> sum_list (map awaiting ss) = 0" for ss
    by (induction ss) simp_all
  then show "allResolved p \<Longrightarrow> runningCount (slots p) = 0"
    by (simp add: allResolved_def runningCount_def)
qed

lemma allResolved_counters:
  assumes c: "countInv fs p" and inv: "claimInv fs p" and n: "slots p \<noteq> []"
    and res: "allResolved p"
  shows "processed (bat p) + failed (bat p) = length fs"
proof -
  from allResolved_dispatched [OF inv n res]
  have "length (dispatched p) = length fs" by (metis length_map)
  with c allResolved_runningCount [OF res] show ?thesis by (simp add: countInv_def)
qed

lemma workerCount_pos: "0 < workerCount c \<and> workerCount c \<le> 4"
  by (auto simp: workerCount_def js_or_def)

text \<open>
  Claim C10. For a listing without empty names and a pool of at least one slot, at every
  point of every run: the calls of \<^verbatim>\<open>runWorker\<close> made so far are, in order, for the first
  \<open>idx\<close> entries of the listing, one call per entry, each made by a slot of the pool; when
  every slot has resolved, the calls are for exactly the entries of the listing, each once;
  and every run can be continued until every slot has resolved.
\<close>

theorem pool_dispatch_exactly_once:
  assumes nb: "[] \<notin> set fs" and n: "0 < n"
  shows "map snd (dispatched (poolRun outcome fs sched (startPool fs n b)))
           = take (idx (poolRun outcome fs sched (startPool fs n b))) fs
       \<and> list_all (\<lambda>d. fst d < n) (dispatched (poolRun outcome fs sched (startPool fs n b)))
       \<and> (allResolved (poolRun outcome fs sched (startPool fs n b))
            \<longrightarrow> map snd (dispatched (poolRun outcome fs sched (startPool fs n b))) = fs)
       \<and> (\<exists>rest. allResolved (poolRun outcome fs (sched @ rest) (startPool fs n b)))"
proof -
  let ?p = "poolRun outcome fs sched (startPool fs n b)"
  have inv: "claimInv fs ?p"
    using nb startPool_props(4) [OF nb] by (rule poolRun_claimInv)
  have len: "length (slots ?p) = n" by (simp add: startPool_props(1))
  from n len have "0 < length (slots ?p)" by (simp only:)
  then have ne: "slots ?p \<noteq> []" by (rule length_greater_0_conv [THEN iffD1])
  from pool_can_finish [of outcome fs ?p]
  have fin: "\<exists>rest. allResolved (poolRun outcome fs (sched @ rest) (startPool fs n b))"
    by (simp add: poolRun_append)
  from inv len have "list_all (\<lambda>d. fst d < n) (dispatched ?p)" by (simp add: claimInv_def)
  moreover from inv have "map snd (dispatched ?p) = take (idx ?p) fs" by (simp add: claimInv_def)
  moreover have "allResolved ?p \<longrightarrow> map snd (dispatched ?p) = fs"
    using allResolved_dispatched [OF inv ne] by blast
  ultimately show ?thesis using fin by blast
qed

theorem pool_dispatch_witness:
  "[] \<notin> set sampleFiles \<and> (0::nat) < 2
   \<and> allResolved (poolRun sampleOutcome sampleFiles sampleSchedule (startPool sampleFiles 2 sampleBatch))
   \<and> dispatched (poolRun sampleOutcome sampleFiles sampleSchedule (startPool sampleFiles 2 sampleBatch))
        = [(0, ''a.jpg''), (1, ''b.dng''), (1, ''c.png'')]
   \<and> map snd (dispatched (poolRun sampleOutcome sampleFiles sampleSchedule
                  (startPool sampleFiles 2 sampleBatch))) = sampleFiles"
proof -
  have nb: "[] \<notin> set sampleFiles" by (simp add: sampleFiles_def)
  have s: "startPool sampleFiles 2 sampleBatch
      = \<lparr>idx = 2, slots = [Running ''a.jpg'', Running ''b.dng''],
         dispatched = [(0, ''a.jpg''), (1, ''b.dng'')], bat = sampleBatch\<rparr>"
    by (simp add: startPool_def sampleFiles_def runOne_def Let_def numeral_2_eq_2)
  have r: "slots (poolRun sampleOutcome sampleFiles sampleSchedule (startPool sampleFiles 2 sampleBatch))
        = [Resolved, Resolved]
      \<and> dispatched (poolRun sampleOutcome sampleFiles sampleSchedule (startPool sampleFiles 2 sampleBatch))
        = [(0, ''a.jpg''), (1, ''b.dng''), (1, ''c.png'')]"
    unfolding s
    by (simp add: sampleSchedule_def sampleFiles_def poolStep_def runOne_def settle_def Let_def
        sampleOutcome_def)
  then have a: "allResolved (poolRun sampleOutcome sampleFiles sampleSchedule (startPool sampleFiles 2 sampleBatch))"
    by (simp add: allResolved_def)
  from pool_dispatch_exactly_once [OF nb, of 2 sampleOutcome sampleSchedule sampleBatch] a r nb
  show ?thesis by (simp add: sampleFiles_def)
qed

section \<open>Properties of the life of a batch\<close>

lemma queuedBatch_simps [simp]:
  "processed (queuedBatch env bid md dt et names) = 0"
  "failed (queuedBatch env bid md dt et names) = 0"
  "total (queuedBatch env bid md dt et names) = length names"
  "status (queuedBatch env bid md dt et names) = Queued"
  by (simp_all add: queuedBatch_def createBatch_def)

lemma createBatch_simps [simp]:
  "processed (createBatch env bid md dt et) = 0"
  "failed (createBatch env bid md dt et) = 0"
  "total (createBatch env bid md dt et) = 0"
  "status (createBatch env bid md dt et) = Uploading"
  by (simp_all add: createBatch_def)

lemma uploadHandler_unfold:
  "uploadHandler env sched bid md dt et names =
     (case processBatchInBackground env sched (queuedBatch env bid md dt et names) of
        (tr, None) \<Rightarrow> createBatch env bid md dt et # queuedBatch env bid md dt et names # tr
      | (tr, Some e) \<Rightarrow> createBatch env bid md dt et # queuedBatch env bid md dt et names # tr
                          @ [(last tr)\<lparr>status := Error, error := Some e\<rparr>])"
  by (simp only: uploadHandler_def queuedBatch_def Let_def)

text \<open>The states of the pool of a batch that starts with both counters at 0.\<close>

lemma poolTrace_props:
  "countInv fs p \<Longrightarrow> q \<in> set (poolTrace outcome fs sched p) \<Longrightarrow>
   countInv fs q \<and> total (bat q) = total (bat p) \<and> status (bat q) = status (bat p)"
proof (induction sched arbitrary: p)
  case Nil
  then show ?case by simp
next
  case (Cons w ws)
  from Cons.prems(2) have "q = p \<or> q \<in> set (poolTrace outcome fs ws (poolStep outcome fs w p))"
    by simp
  then show ?case
  proof
    assume "q = p" with Cons.prems(1) show ?thesis by simp
  next
    assume "q \<in> set (poolTrace outcome fs ws (poolStep outcome fs w p))"
    with poolStep_countInv [OF Cons.prems(1)]
    have "countInv fs q \<and> total (bat q) = total (bat (poolStep outcome fs w p))
          \<and> status (bat q) = status (bat (poolStep outcome fs w p))"
      by (rule Cons.IH)
    then show ?thesis by simp
  qed
qed

lemma pool_states:
  assumes z: "processed b = 0" "failed b = 0"
    and q: "q \<in> set (poolTrace outcome fs sched (startPool fs n b))"
  shows "countInv fs q \<and> total (bat q) = total b \<and> status (bat q) = status b"
  using poolTrace_props [OF startPool_props(3) [OF z] q] by (simp add: startPool_props(2))

lemma pool_final:
  assumes z: "processed b = 0" "failed b = 0" and nb: "[] \<notin> set fs" and n: "0 < n"
    and res: "allResolved (poolRun outcome fs sched (startPool fs n b))"
  shows "processed (bat (poolRun outcome fs sched (startPool fs n b)))
         + failed (bat (poolRun outcome fs sched (startPool fs n b))) = length fs"
proof -
  let ?p = "poolRun outcome fs sched (startPool fs n b)"
  have c: "countInv fs ?p" using z by (simp add: poolRun_countInv startPool_props)
  have i: "claimInv fs ?p" using nb by (simp add: poolRun_claimInv startPool_props)
  have "length (slots ?p) = n" by (simp add: startPool_props(1))
  with n have "0 < length (slots ?p)" by (simp only:)
  then have ne: "slots ?p \<noteq> []" by (rule length_greater_0_conv [THEN iffD1])
  from c i ne res show ?thesis by (rule allResolved_counters)
qed

lemma listing_length:
  assumes "distinct fs" "set fs = set names"
  shows "length fs \<le> length names" and "distinct names \<Longrightarrow> length fs = length names"
proof -
  from assms have c: "length fs = card (set names)" by (metis distinct_card)
  then show "length fs \<le> length names" by (simp add: card_length)
  show "distinct names \<Longrightarrow> length fs = length names" using c by (simp add: distinct_card)
qed

lemma countInv_le: "countInv fs p \<Longrightarrow> processed (bat p) + failed (bat p) \<le> length fs"
  by (simp add: countInv_def)

subsection \<open>The states of a batch\<close>

lemma processed_status_update [simp]:
  "processed (b\<lparr>status := s\<rparr>) = processed b" "failed (b\<lparr>status := s\<rparr>) = failed b"
  "total (b\<lparr>status := s\<rparr>) = total b"
  by simp_all

lemma handler_early_mkdir:
  assumes "mkdirResult env = Some e"
  shows "uploadHandler env sched bid md dt et names =
     [createBatch env bid md dt et, queuedBatch env bid md dt et names,
      (queuedBatch env bid md dt et names)\<lparr>status := Processing\<rparr>,
      (queuedBatch env bid md dt et names)\<lparr>status := Error, error := Some e\<rparr>]"
  using assms by (simp add: uploadHandler_unfold processBatchInBackground_def)

lemma handler_early_listing:
  assumes "mkdirResult env = None" "uploadsListing env = Inl e"
  shows "uploadHandler env sched bid md dt et names =
     [createBatch env bid md dt et, queuedBatch env bid md dt et names,
      (queuedBatch env bid md dt et names)\<lparr>status := Processing\<rparr>,
      (queuedBatch env bid md dt et names)\<lparr>status := Error, error := Some e\<rparr>]"
  using assms by (simp add: uploadHandler_unfold processBatchInBackground_def)

lemma handler_pool:
  fixes env :: serverEnv and bid md dt et :: string and names fs :: "string list"
    and sched :: "nat list"
  assumes "mkdirResult env = None" "uploadsListing env = Inr fs"
  defines "b1 \<equiv> (queuedBatch env bid md dt et names)\<lparr>status := Processing\<rparr>"
  defines "p \<equiv> poolRun (workerOutcome env) fs sched (startPool fs (workerCount (cpus env)) b1)"
  shows "uploadHandler env sched bid md dt et names =
     createBatch env bid md dt et # queuedBatch env bid md dt et names # b1
       # map bat (poolTrace (workerOutcome env) fs sched (startPool fs (workerCount (cpus env)) b1))
       @ (if \<not> allResolved p then []
          else if outFiles env = []
            then [(bat p)\<lparr>status := Error,
                    error := Some ''Er zijn geen bewerkte bestanden geproduceerd (mogelijk faalden alle items).''\<rparr>]
          else (case zipResult env of
                  Some e \<Rightarrow> [(bat p)\<lparr>status := Zipping\<rparr>, (bat p)\<lparr>status := Error, error := Some e\<rparr>]
                | None \<Rightarrow> [(bat p)\<lparr>status := Zipping\<rparr>, (bat p)\<lparr>status := Done\<rparr>]))"
  using assms(1,2) unfolding b1_def p_def
  by (simp add: uploadHandler_unfold processBatchInBackground_def Let_def last_poolTrace
      split: option.splits)

text \<open>
  Claim C2, as amended. Let the listing of the upload directory hold exactly the names of
  the uploaded files, each once. Then \<open>processed + failed \<le> total\<close> in every state of the
  batch. If the output directory was created and the upload directory was listed, and the
  uploaded names are pairwise distinct, then \<open>processed + failed = total\<close> in every state with
  status Zipping, Done or Error. If creating the output directory or listing the upload
  directory failed, both counters are \<open>0\<close> in every state, also in the final Error state.
\<close>

theorem batch_counters:
  assumes ok: "listingOk env names"
    and st: "b \<in> set (uploadHandler env sched bid md dt et names)"
  shows "processed b + failed b \<le> total b
       \<and> (mkdirResult env = None \<and> \<not> isl (uploadsListing env) \<and> distinct names
            \<and> (status b = Zipping \<or> status b = Done \<or> status b = Error)
          \<longrightarrow> processed b + failed b = total b)
       \<and> (mkdirResult env \<noteq> None \<or> isl (uploadsListing env)
          \<longrightarrow> processed b = 0 \<and> failed b = 0)"
proof (cases "mkdirResult env")
  case (Some e)
  from st show ?thesis unfolding handler_early_mkdir [OF Some] using Some by auto
next
  case None
  show ?thesis
  proof (cases "uploadsListing env")
    case (Inl e)
    from st show ?thesis unfolding handler_early_listing [OF None Inl] using Inl by auto
  next
    case (Inr fs)
    define b1 where "b1 = (queuedBatch env bid md dt et names)\<lparr>status := Processing\<rparr>"
    define n where "n = workerCount (cpus env)"
    define p where "p = poolRun (workerOutcome env) fs sched (startPool fs n b1)"
    have z: "processed b1 = 0" "failed b1 = 0" and t1: "total b1 = length names"
      and s1: "status b1 = Processing"
      by (simp_all add: b1_def)
    have "distinct fs \<and> set fs = set names \<and> [] \<notin> set fs"
      using ok unfolding listingOk_def Inr sum.case by blast
    then have l: "distinct fs" "set fs = set names" "[] \<notin> set fs"
      by blast+
    note len = listing_length [OF l(1,2)]
    have n: "0 < n" by (simp add: n_def workerCount_pos)
    have pool: "processed (bat q) + failed (bat q) \<le> length names \<and> total (bat q) = length names
          \<and> status (bat q) = Processing"
      if "q \<in> set (poolTrace (workerOutcome env) fs sched (startPool fs n b1))" for q
      using pool_states [OF z that] countInv_le [of fs q] len(1) t1 s1 by simp
    have pin: "p \<in> set (poolTrace (workerOutcome env) fs sched (startPool fs n b1))"
      unfolding p_def by (rule poolRun_in_trace)
    have fin: "processed (bat p) + failed (bat p) = length fs" if "allResolved p"
      using that unfolding p_def by (intro pool_final z l(3) n)
    have rl: "\<not> isl (uploadsListing env)" by (simp add: Inr)
    from st have
      "b = createBatch env bid md dt et \<or> b = queuedBatch env bid md dt et names \<or> b = b1
       \<or> (\<exists>q\<in>set (poolTrace (workerOutcome env) fs sched (startPool fs n b1)). b = bat q)
       \<or> (allResolved p \<and> processed b = processed (bat p) \<and> failed b = failed (bat p)
            \<and> total b = total (bat p))"
      unfolding handler_pool [OF None Inr] b1_def [symmetric] n_def [symmetric] p_def [symmetric]
      by (auto split: if_splits option.splits)
    then consider (a) "b = createBatch env bid md dt et" | (b) "b = queuedBatch env bid md dt et names"
      | (c) "b = b1"
      | (d) q where "q \<in> set (poolTrace (workerOutcome env) fs sched (startPool fs n b1))" "b = bat q"
      | (e) "allResolved p" "processed b = processed (bat p)" "failed b = failed (bat p)"
            "total b = total (bat p)"
      by blast
    then show ?thesis
    proof cases
      case a
      then show ?thesis using None rl by simp
    next
      case b
      then show ?thesis using None rl by simp
    next
      case c
      then show ?thesis using None rl z s1 by simp
    next
      case d
      with pool [OF d(1)] show ?thesis using None rl by simp
    next
      case e
      with fin [OF e(1)] pool [OF pin] len show ?thesis using None rl by auto
    qed
  qed
qed

lemma poolTrace_nonempty [simp]: "poolTrace outcome fs sched p \<noteq> []"
  by (cases sched) simp_all

lemma pool_status:
  "status (bat (poolRun outcome fs sched (startPool fs n b))) = status b"
  by (simp add: startPool_props(2))





subsection \<open>Sample runs\<close>

lemma sample_pool_run:
  "poolStep (\<lambda>f. None) [''IMG_1.dng''] 0
     (poolStep (\<lambda>f. None) [''IMG_1.dng''] 0 (startPool [''IMG_1.dng''] (Suc 0) b))
     = \<lparr>idx = 2, slots = [Resolved], dispatched = [(0, ''IMG_1.dng'')],
        bat = b\<lparr>processed := processed b + 1,
                 files := markFile (\<lambda>f. f\<lparr>fileStatus := FileOk\<rparr>) ''IMG_1.dng'' (files b)\<rparr>\<rparr>"
  by (simp add: startPool_def poolStep_def runOne_def settle_def Let_def)

lemma sample_workerCount: "workerCount 2 = 1"
  by (simp add: workerCount_def js_or_def)

text \<open>
  Claim C2 as stated fails: when \<^verbatim>\<open>mkdir\<close> fails for a batch of one file, the status becomes
  Error while \<open>processed + failed\<close> is \<open>0\<close> and \<open>total\<close> is \<open>1\<close>.
\<close>

theorem batch_counters_counterexample:
  "status (last (uploadHandler failedMkdir [] ''b1'' ''edit-only'' [] [] [''IMG_1.dng''])) = Error
   \<and> processed (last (uploadHandler failedMkdir [] ''b1'' ''edit-only'' [] [] [''IMG_1.dng''])) = 0
   \<and> failed (last (uploadHandler failedMkdir [] ''b1'' ''edit-only'' [] [] [''IMG_1.dng''])) = 0
   \<and> total (last (uploadHandler failedMkdir [] ''b1'' ''edit-only'' [] [] [''IMG_1.dng''])) = 1"
proof -
  have "mkdirResult failedMkdir = Some ''EACCES''"
    by (simp add: failedMkdir_def sampleServer_def)
  then show ?thesis by (simp add: handler_early_mkdir)
qed

lemma sample_last:
  assumes "mkdirResult env = None" "uploadsListing env = Inr [''IMG_1.dng'']" "cpus env = 2"
    "workerOutcome env = (\<lambda>f. None)" "outFiles env \<noteq> []" "zipResult env = None"
  shows "last (uploadHandler env [0, 0] ''b1'' ''edit-only'' [] [] [''IMG_1.dng''])
     = (queuedBatch env ''b1'' ''edit-only'' [] [] [''IMG_1.dng''])
         \<lparr>processed := 1,
          files := [\<lparr>name = ''IMG_1.dng'', fileStatus = FileOk, fileError = None\<rparr>],
          status := Done\<rparr>"
  unfolding handler_pool [OF assms(1,2)] using assms(3-)
  by (simp add: sample_workerCount sample_pool_run allResolved_def queuedBatch_def createBatch_def)

lemma sample_env:
  "mkdirResult sampleServer = None" "uploadsListing sampleServer = Inr [''IMG_1.dng'']"
  "cpus sampleServer = 2" "workerOutcome sampleServer = (\<lambda>f. None)"
  "outFiles sampleServer \<noteq> []" "zipResult sampleServer = None"
  by (simp_all add: sampleServer_def outFiles_def)

text \<open>A run of the sample server with one file: the batch ends Done with one file processed.\<close>

theorem batch_counters_witness:
  "listingOk sampleServer [''IMG_1.dng'']
   \<and> mkdirResult sampleServer = None \<and> \<not> isl (uploadsListing sampleServer)
   \<and> distinct [''IMG_1.dng'']
   \<and> status (last (uploadHandler sampleServer [0, 0] ''b1'' ''edit-only'' [] [] [''IMG_1.dng''])) = Done
   \<and> processed (last (uploadHandler sampleServer [0, 0] ''b1'' ''edit-only'' [] [] [''IMG_1.dng''])) = 1
   \<and> failed (last (uploadHandler sampleServer [0, 0] ''b1'' ''edit-only'' [] [] [''IMG_1.dng''])) = 0
   \<and> total (last (uploadHandler sampleServer [0, 0] ''b1'' ''edit-only'' [] [] [''IMG_1.dng''])) = 1"
proof -
  let ?T = "uploadHandler sampleServer [0, 0] ''b1'' ''edit-only'' [] [] [''IMG_1.dng'']"
  have ok: "listingOk sampleServer [''IMG_1.dng'']"
    by (simp add: listingOk_def sampleServer_def)
  have ne: "?T \<noteq> []" by (simp add: uploadHandler_unfold split: prod.splits option.splits)
  then have mem: "last ?T \<in> set ?T" by (rule last_in_set)
  note l = sample_last [OF sample_env]
  from batch_counters [OF ok mem] l ok sample_env show ?thesis by simp
qed




end
